theory Spec2Isabelle
  imports Complex_Main "HOL-Library.Sublist"
begin

section \<open>Values exchanged by the gateway\<close>

text \<open>
  The gateway is the Express application of \<^verbatim>\<open>services/api-gateway\<close>: its main module, which
  mounts the middleware and the proxies, and \<^verbatim>\<open>routes/health.js\<close>. Strings are byte strings. A JSON body keeps the order in which the
  source writes the properties. \<open>JIso t\<close> stands for \<^verbatim>\<open>new Date().toISOString()\<close> taken at the
  instant \<open>t\<close> (milliseconds).
\<close>

datatype json = JStr string | JNum rat | JIso nat | JObj "(string \<times> json) list"

datatype http_method = GET | HEAD | POST | PUT | DELETE | PATCH | OPTIONS

fun method_name :: "http_method \<Rightarrow> string" where
  "method_name GET = ''GET''"
| "method_name HEAD = ''HEAD''"
| "method_name POST = ''POST''"
| "method_name PUT = ''PUT''"
| "method_name DELETE = ''DELETE''"
| "method_name PATCH = ''PATCH''"
| "method_name OPTIONS = ''OPTIONS''"

record request =
  req_method :: http_method
  originalUrl :: string
  ip :: string
  headers :: "(string \<times> string) list"
  body :: string

text \<open>What an upstream service answers: status line, headers and body.\<close>

record upstream_response =
  statusCode :: nat
  resHeaders :: "(string \<times> string) list"
  resBody :: string

text \<open>
  What the client receives: \<open>Json s j\<close> is \<^verbatim>\<open>res.status(s).json(j)\<close>, \<open>Send s t\<close> is
  \<^verbatim>\<open>res.status(s).send(t)\<close>, \<open>Relay u\<close> is the upstream's response piped through by the proxy,
  and \<open>Fallback s\<close> is Express's built-in final handler (no layer answered).
\<close>

datatype reply = Json nat json | Send nat string | Relay upstream_response | Fallback nat


text \<open>
  Third-party middleware whose code is not part of the repository is a parameter of the
  model: all that is known of a call is whether it passes the request on (\<^verbatim>\<open>next()\<close>),
  answers it itself, or fails (\<^verbatim>\<open>next(err)\<close>, with \<^verbatim>\<open>err.message\<close>).
\<close>

datatype third_party = Helmet | Cors | JsonParser | UrlencodedParser | SwaggerUi

datatype mw_result = Next | Ends reply | Throws string

text \<open>An outbound call either fails to connect or is answered.\<close>

datatype conn_error = ECONNREFUSED | ENOTFOUND | ETIMEDOUT

fun error_code :: "conn_error \<Rightarrow> string" where
  "error_code ECONNREFUSED = ''ECONNREFUSED''"
| "error_code ENOTFOUND = ''ENOTFOUND''"
| "error_code ETIMEDOUT = ''ETIMEDOUT''"

datatype attempt = Failed conn_error | Replied upstream_response

datatype log_entry = LogInfo string | LogError string string

record memory_usage =
  rss :: nat
  heapTotal :: nat
  heapUsed :: nat

text \<open>
  The surroundings of one request: \<^verbatim>\<open>process.env\<close>, the clock, \<^verbatim>\<open>process.uptime()\<close>,
  \<^verbatim>\<open>process.memoryUsage()\<close> (\<open>Inl\<close> when the call throws, with the message), the third-party
  middleware and the network (target base URL and forwarded request to the outcome of the
  call).
\<close>

record ctx =
  env :: "string \<rightharpoonup> string"
  now :: nat
  uptime :: rat
  memoryUsage :: "string + memory_usage"
  lib :: "third_party \<Rightarrow> request \<Rightarrow> mw_result"
  net :: "string \<Rightarrow> request \<Rightarrow> attempt"

record bucket =
  windowStart :: nat
  count :: nat

text \<open>
  The gateway's mutable state: the rate limiter's buckets, the server log, and the outbound
  calls made so far (target and forwarded URL), oldest first.
\<close>

record gstate =
  buckets :: "string \<rightharpoonup> bucket"
  logged :: "log_entry list"
  outbound :: "(string \<times> string) list"

definition logger_info :: "string \<Rightarrow> gstate \<Rightarrow> gstate" where
  "logger_info msg st = st\<lparr>logged := logged st @ [LogInfo msg]\<rparr>"

definition logger_error :: "string \<Rightarrow> string \<Rightarrow> gstate \<Rightarrow> gstate" where
  "logger_error msg err st = st\<lparr>logged := logged st @ [LogError msg err]\<rparr>"

text \<open>\<^verbatim>\<open>process.env.K || d\<close>: an unset or empty variable gives the default.\<close>

definition env_or :: "(string \<rightharpoonup> string) \<Rightarrow> string \<Rightarrow> string \<Rightarrow> string" where
  "env_or e k d = (case e k of None \<Rightarrow> d | Some v \<Rightarrow> if v = [] then d else v)"

section \<open>Path matching as Express does it\<close>

text \<open>
  Routing is case-insensitive (the \<^verbatim>\<open>i\<close> flag of the layer's regular expression): ASCII
  letters are folded, other bytes are left alone.
\<close>

definition lower :: "char \<Rightarrow> char" where
  "lower ch = (case map_of (zip ''ABCDEFGHIJKLMNOPQRSTUVWXYZ'' ''abcdefghijklmnopqrstuvwxyz'') ch of
     None \<Rightarrow> ch | Some d \<Rightarrow> d)"

definition pathname :: "string \<Rightarrow> string" where
  "pathname url = takeWhile (\<lambda>ch. ch \<noteq> CHR ''?'') url"

text \<open>\<^verbatim>\<open>req.path\<close>: the URL without its query string.\<close>

definition req_path :: "request \<Rightarrow> string" where
  "req_path r = pathname (originalUrl r)"

definition strip_slash :: "string \<Rightarrow> string" where
  "strip_slash p = (if p \<noteq> [] \<and> last p = CHR ''/'' then butlast p else p)"

text \<open>
  \<^verbatim>\<open>app.use(p, ...)\<close> builds the expression \<^verbatim>\<open>^p\/?(?=\/|$)\<close>: the path starts with \<open>p\<close>
  (without its trailing slash) and what follows is empty or begins a new segment.
\<close>

definition mount_match :: "string \<Rightarrow> string \<Rightarrow> bool" where
  "mount_match p path =
     (let q = strip_slash p; rest = drop (length q) path
      in map lower (take (length q) path) = map lower q \<and> (rest = [] \<or> hd rest = CHR ''/''))"

text \<open>
  Inside a mounted router the matched prefix is cut off the URL and a leading slash is
  restored.
\<close>

definition mount_rest :: "string \<Rightarrow> string \<Rightarrow> string" where
  "mount_rest p path =
     (let rest = drop (length (strip_slash p)) path
      in if rest = [] then ''/'' else if take 2 rest = ''//'' then tl rest else rest)"

text \<open>
  \<^verbatim>\<open>router.get(p, ...)\<close> builds \<^verbatim>\<open>^p\/?$\<close>: the whole path is \<open>p\<close>, with or without a
  trailing slash.
\<close>

definition route_match :: "string \<Rightarrow> string \<Rightarrow> bool" where
  "route_match p path =
     (let q = map lower (strip_slash p); l = map lower path
      in l = q \<or> l = q @ ''/'')"

section \<open>The handlers of the source\<close>

subsection \<open>Health routes\<close>

text \<open>\<^verbatim>\<open>Math.round(n / 1024 / 1024)\<close> for a byte count \<open>n\<close>: halves round up.\<close>

definition round_mb :: "nat \<Rightarrow> nat" where
  "round_mb n = (n + 524288) div 1048576"

definition health_root :: "ctx \<Rightarrow> gstate \<Rightarrow> gstate \<times> reply" where
  "health_root c st =
     (case memoryUsage c of
        Inr memUsage \<Rightarrow>
          (st, Json 200 (JObj
            [(''status'', JStr ''healthy''),
             (''service'', JStr ''api-gateway''),
             (''timestamp'', JIso (now c)),
             (''uptime'', JNum (uptime c)),
             (''version'', JStr ''1.0.0''),
             (''environment'', JStr (env_or (env c) ''NODE_ENV'' ''development'')),
             (''memory'', JObj
               [(''rss'', JNum (of_nat (round_mb (rss memUsage)))),
                (''heapTotal'', JNum (of_nat (round_mb (heapTotal memUsage)))),
                (''heapUsed'', JNum (of_nat (round_mb (heapUsed memUsage))))])]))
      | Inl message \<Rightarrow>
          (logger_error ''Health check error:'' message st,
           Json 503 (JObj
            [(''status'', JStr ''unhealthy''),
             (''service'', JStr ''api-gateway''),
             (''timestamp'', JIso (now c)),
             (''error'', JStr message)])))"

definition health_ready :: "ctx \<Rightarrow> reply" where
  "health_ready c = Json 200 (JObj
     [(''status'', JStr ''ready''),
      (''service'', JStr ''api-gateway''),
      (''timestamp'', JIso (now c))])"

definition health_live :: "ctx \<Rightarrow> reply" where
  "health_live c = Json 200 (JObj
     [(''status'', JStr ''alive''),
      (''service'', JStr ''api-gateway''),
      (''timestamp'', JIso (now c)),
      (''uptime'', JNum (uptime c))])"

text \<open>
  The router of \<^verbatim>\<open>routes/health.js\<close>, given the method and the URL left after the mount
  point. A \<^verbatim>\<open>get\<close> route also serves HEAD; an OPTIONS request to a path of the router is
  answered by Express with the allowed methods; anything else is passed on.
\<close>

definition healthRoutes :: "ctx \<Rightarrow> gstate \<Rightarrow> http_method \<Rightarrow> string \<Rightarrow> gstate \<times> mw_result" where
  "healthRoutes c st m url =
     (if m = GET \<or> m = HEAD then
        (if route_match ''/'' url then (let (st', rep) = health_root c st in (st', Ends rep))
         else if route_match ''/ready'' url then (st, Ends (health_ready c))
         else if route_match ''/live'' url then (st, Ends (health_live c))
         else (st, Next))
      else if m = OPTIONS \<and>
          (route_match ''/'' url \<or> route_match ''/ready'' url \<or> route_match ''/live'' url)
        then (st, Ends (Send 200 ''GET,HEAD''))
      else (st, Next))"

subsection \<open>Rate limiter\<close>

record limiter_options =
  windowMs :: nat
  max_requests :: nat
  message :: string

definition limiter :: limiter_options where
  "limiter = \<lparr>windowMs = 15 * 60 * 1000, max_requests = 300,
     message = ''Too many requests from this IP, please try again later.''\<rparr>"

text \<open>
  Modelled from the spec: the middleware returned by \<^verbatim>\<open>rateLimit\<close> (package
  express-rate-limit, not under src/), after section 4.4 and the RateLimitBucket of
  section 3. The client key is the remote address. A bucket holds the start of its window
  and a count; a request arriving when the key has no bucket, or when the bucket's window
  has run out, opens a new one. The request is admitted if the count is below the threshold,
  the count is incremented and the request proceeds; otherwise it is rejected at once with
  status 429 and the configured message.
\<close>

definition current_bucket :: "limiter_options \<Rightarrow> nat \<Rightarrow> bucket option \<Rightarrow> bucket" where
  "current_bucket opts t ob =
     (case ob of
        None \<Rightarrow> \<lparr>windowStart = t, count = 0\<rparr>
      | Some b \<Rightarrow> if t < windowStart b + windowMs opts then b else \<lparr>windowStart = t, count = 0\<rparr>)"

definition rateLimit :: "limiter_options \<Rightarrow> nat \<Rightarrow> gstate \<Rightarrow> request \<Rightarrow> gstate \<times> mw_result" where
  "rateLimit opts t st r =
     (let key = ip r; b = current_bucket opts t (buckets st key)
      in if count b < max_requests opts
         then (st\<lparr>buckets := (buckets st)(key \<mapsto> b\<lparr>count := count b + 1\<rparr>)\<rparr>, Next)
         else (st\<lparr>buckets := (buckets st)(key \<mapsto> b)\<rparr>, Ends (Send 429 (message opts))))"

subsection \<open>Proxies to the three services\<close>

datatype upstream = UserService | ProductService | OrderService

record proxy_options =
  target :: string
  pathRewrite :: "(string \<times> string) list"

definition userServiceProxy :: "(string \<rightharpoonup> string) \<Rightarrow> proxy_options" where
  "userServiceProxy e =
     \<lparr>target = env_or e ''USER_SERVICE_URL'' ''http://user-service:3001'',
      pathRewrite = [(''/api/users'', ''/api/users''), (''/api/auth'', ''/api/auth'')]\<rparr>"

definition productServiceProxy :: "(string \<rightharpoonup> string) \<Rightarrow> proxy_options" where
  "productServiceProxy e =
     \<lparr>target = env_or e ''PRODUCT_SERVICE_URL'' ''http://product-service:3002'',
      pathRewrite = [(''/api/products'', ''/api/products''),
        (''/api/categories'', ''/api/categories''), (''/api/inventory'', ''/api/inventory'')]\<rparr>"

definition orderServiceProxy :: "(string \<rightharpoonup> string) \<Rightarrow> proxy_options" where
  "orderServiceProxy e =
     \<lparr>target = env_or e ''ORDER_SERVICE_URL'' ''http://order-service:3003'',
      pathRewrite = [(''/api/orders'', ''/api/orders''), (''/api/cart'', ''/api/cart'')]\<rparr>"

fun proxy_of :: "upstream \<Rightarrow> (string \<rightharpoonup> string) \<Rightarrow> proxy_options" where
  "proxy_of UserService e = userServiceProxy e"
| "proxy_of ProductService e = productServiceProxy e"
| "proxy_of OrderService e = orderServiceProxy e"

text \<open>The \<^verbatim>\<open>onError\<close> callbacks: log the failure under the service's name, answer 503.\<close>

fun onError :: "upstream \<Rightarrow> conn_error \<Rightarrow> gstate \<Rightarrow> gstate \<times> reply" where
  "onError UserService err st =
     (logger_error ''User Service Proxy Error:'' (error_code err) st,
      Json 503 (JObj [(''error'', JStr ''User service unavailable'')]))"
| "onError ProductService err st =
     (logger_error ''Product Service Proxy Error:'' (error_code err) st,
      Json 503 (JObj [(''error'', JStr ''Product service unavailable'')]))"
| "onError OrderService err st =
     (logger_error ''Order Service Proxy Error:'' (error_code err) st,
      Json 503 (JObj [(''error'', JStr ''Order service unavailable'')]))"

text \<open>
  A \<^verbatim>\<open>pathRewrite\<close> table: the first rule whose pattern \<^verbatim>\<open>^p\<close> matches the URL replaces the
  matched text by its value; with no matching rule the URL is kept.
\<close>

fun rewritePath :: "(string \<times> string) list \<Rightarrow> string \<Rightarrow> string" where
  "rewritePath [] url = url"
| "rewritePath ((p, v) # rules) url =
     (if prefix p url then v @ drop (length p) url else rewritePath rules url)"

text \<open>
  Modelled from the spec: the middleware returned by \<^verbatim>\<open>createProxyMiddleware\<close> (package
  http-proxy-middleware, not under src/), after section 4.2, for the options the source
  passes (a target, a path rewrite table and an error callback; no hook on the response).
  It makes one outbound call to the target with the rewritten original URL; a connection
  failure goes to the error callback and is not retried; a response of the upstream is
  relayed as it is.
\<close>

definition createProxyMiddleware ::
  "proxy_options \<Rightarrow> (conn_error \<Rightarrow> gstate \<Rightarrow> gstate \<times> reply) \<Rightarrow>
    ctx \<Rightarrow> gstate \<Rightarrow> request \<Rightarrow> gstate \<times> mw_result" where
  "createProxyMiddleware opts on_error c st r =
     (let url = rewritePath (pathRewrite opts) (originalUrl r);
          st1 = st\<lparr>outbound := outbound st @ [(target opts, url)]\<rparr>
      in case net c (target opts) (r\<lparr>originalUrl := url\<rparr>) of
           Failed err \<Rightarrow> (let (st2, rep) = on_error err st1 in (st2, Ends rep))
         | Replied u \<Rightarrow> (st1, Ends (Relay u)))"

subsection \<open>Root endpoint, 404 handler, error handler\<close>

definition rootEndpoint :: "ctx \<Rightarrow> reply" where
  "rootEndpoint c = Json 200 (JObj
     [(''service'', JStr ''API Gateway''),
      (''version'', JStr ''1.0.0''),
      (''status'', JStr ''running''),
      (''timestamp'', JIso (now c)),
      (''endpoints'', JObj
        [(''health'', JStr ''/health''),
         (''users'', JStr ''/api/users''),
         (''auth'', JStr ''/api/auth''),
         (''products'', JStr ''/api/products''),
         (''categories'', JStr ''/api/categories''),
         (''inventory'', JStr ''/api/inventory''),
         (''orders'', JStr ''/api/orders''),
         (''cart'', JStr ''/api/cart''),
         (''docs'', JStr ''/api-docs'')]),
      (''services'', JObj
        [(''user_service'', JStr (env_or (env c) ''USER_SERVICE_URL'' ''http://user-service:3001'')),
         (''product_service'',
            JStr (env_or (env c) ''PRODUCT_SERVICE_URL'' ''http://product-service:3002'')),
         (''order_service'',
            JStr (env_or (env c) ''ORDER_SERVICE_URL'' ''http://order-service:3003''))])])"

definition notFound :: "request \<Rightarrow> reply" where
  "notFound r = Json 404 (JObj
     [(''error'', JStr ''Endpoint not found''),
      (''path'', JStr (originalUrl r)),
      (''method'', JStr (method_name (req_method r)))])"

definition errorMiddleware :: "ctx \<Rightarrow> string \<Rightarrow> gstate \<Rightarrow> gstate \<times> reply" where
  "errorMiddleware c err_message st =
     (logger_error ''Unhandled error:'' err_message st,
      Json 500 (JObj
        [(''error'', JStr ''Internal Server Error''),
         (''message'', JStr (if env c ''NODE_ENV'' = Some ''development'' then err_message
                             else ''Something went wrong''))]))"

section \<open>The application: its layers in the order the source mounts them\<close>

datatype matcher = UseAll | UseAt string | GetAt string | UseStar

datatype handler =
    ThirdParty third_party
  | Limiter
  | RequestLogger
  | HealthRoutes
  | Proxy upstream
  | RootEndpoint
  | NotFound
  | ErrorMiddleware

type_synonym layer = "matcher \<times> handler"

definition app :: "layer list" where
  "app =
    [(UseAll, ThirdParty Helmet),
     (UseAll, ThirdParty Cors),
     (UseAt ''/api/'', Limiter),
     (UseAll, ThirdParty JsonParser),
     (UseAll, ThirdParty UrlencodedParser),
     (UseAll, RequestLogger),
     (UseAt ''/api-docs'', ThirdParty SwaggerUi),
     (UseAt ''/health'', HealthRoutes),
     (UseAt ''/api/users'', Proxy UserService),
     (UseAt ''/api/auth'', Proxy UserService),
     (UseAt ''/api/products'', Proxy ProductService),
     (UseAt ''/api/categories'', Proxy ProductService),
     (UseAt ''/api/inventory'', Proxy ProductService),
     (UseAt ''/api/orders'', Proxy OrderService),
     (UseAt ''/api/cart'', Proxy OrderService),
     (GetAt ''/'', RootEndpoint),
     (UseStar, NotFound),
     (UseAll, ErrorMiddleware)]"

fun matches :: "matcher \<Rightarrow> request \<Rightarrow> bool" where
  "matches UseAll r = True"
| "matches (UseAt p) r = mount_match p (req_path r)"
| "matches (GetAt p) r =
     ((req_method r = GET \<or> req_method r = HEAD) \<and> route_match p (req_path r))"
| "matches UseStar r = True"

fun sub_url :: "matcher \<Rightarrow> request \<Rightarrow> string" where
  "sub_url (UseAt p) r = mount_rest p (req_path r)"
| "sub_url m r = req_path r"

text \<open>The line the logging middleware writes: method, path and client address.\<close>

definition request_line :: "request \<Rightarrow> string" where
  "request_line r = method_name (req_method r) @ '' '' @ req_path r @ '' - '' @ ip r"

text \<open>One layer called with a request it matches.\<close>

fun invoke :: "ctx \<Rightarrow> layer \<Rightarrow> gstate \<Rightarrow> request \<Rightarrow> gstate \<times> mw_result" where
  "invoke c (m, ThirdParty t) st r = (st, lib c t r)"
| "invoke c (m, Limiter) st r = rateLimit limiter (now c) st r"
| "invoke c (m, RequestLogger) st r = (logger_info (request_line r) st, Next)"
| "invoke c (m, HealthRoutes) st r = healthRoutes c st (req_method r) (sub_url m r)"
| "invoke c (m, Proxy u) st r = createProxyMiddleware (proxy_of u (env c)) (onError u) c st r"
| "invoke c (m, RootEndpoint) st r = (st, Ends (rootEndpoint c))"
| "invoke c (m, NotFound) st r = (st, Ends (notFound r))"
| "invoke c (m, ErrorMiddleware) st r = (st, Next)"

record outcome =
  reply :: reply
  final :: gstate
  trace :: "layer list"

text \<open>
  Express walks the stack in order. Without a pending error it skips the error handler and
  the layers that do not match, and calls the others until one answers; once a layer has
  failed, only the error handler is called. \<open>trace\<close> lists the layers called, in order.
\<close>

fun run :: "ctx \<Rightarrow> request \<Rightarrow> layer list \<Rightarrow> string option \<Rightarrow> gstate \<Rightarrow> layer list \<Rightarrow> outcome" where
  "run c r [] err st tr =
     \<lparr>reply = Fallback (case err of None \<Rightarrow> 404 | Some e \<Rightarrow> 500), final = st, trace = tr\<rparr>"
| "run c r (l # ls) None st tr =
     (if snd l = ErrorMiddleware \<or> \<not> matches (fst l) r then run c r ls None st tr
      else case invoke c l st r of
             (st', Next) \<Rightarrow> run c r ls None st' (tr @ [l])
           | (st', Ends rep) \<Rightarrow> \<lparr>reply = rep, final = st', trace = tr @ [l]\<rparr>
           | (st', Throws e) \<Rightarrow> run c r ls (Some e) st' (tr @ [l]))"
| "run c r (l # ls) (Some e) st tr =
     (if snd l = ErrorMiddleware \<and> matches (fst l) r
      then (let (st', rep) = errorMiddleware c e st
            in \<lparr>reply = rep, final = st', trace = tr @ [l]\<rparr>)
      else run c r ls (Some e) st tr)"

definition handle :: "ctx \<Rightarrow> gstate \<Rightarrow> request \<Rightarrow> outcome" where
  "handle c st r = run c r app None st []"

subsection \<open>Start-up\<close>




section \<open>Notions used to state the properties\<close>

text \<open>The route table: the mount points bound to a proxy, with the service behind each.\<close>

fun proxied :: "layer \<Rightarrow> (string \<times> upstream) list" where
  "proxied (UseAt p, Proxy u) = [(p, u)]"
| "proxied l = []"

definition routing_table :: "(string \<times> upstream) list" where
  "routing_table = concat (map proxied app)"

text \<open>
  The layers mounted before the routes are third-party middleware and the rate limiter. A
  request reaches the routes when each third-party layer passes it on and, for a path under
  \<^verbatim>\<open>/api/\<close>, the limiter admits it.
\<close>

definition passes_on :: "ctx \<Rightarrow> request \<Rightarrow> bool" where
  "passes_on c r =
     (lib c Helmet r = Next \<and> lib c Cors r = Next \<and>
      lib c JsonParser r = Next \<and> lib c UrlencodedParser r = Next)"

definition admits :: "ctx \<Rightarrow> gstate \<Rightarrow> request \<Rightarrow> bool" where
  "admits c st r = (snd (rateLimit limiter (now c) st r) = Next)"

definition reaches_routes :: "ctx \<Rightarrow> gstate \<Rightarrow> request \<Rightarrow> bool" where
  "reaches_routes c st r =
     (passes_on c r \<and> (mount_match ''/api/'' (req_path r) \<longrightarrow> admits c st r))"

text \<open>The layers from the API documentation on, and what has happened when they are reached.\<close>

definition routes :: "layer list" where
  "routes = drop 6 app"

definition entered :: "ctx \<Rightarrow> gstate \<Rightarrow> request \<Rightarrow> gstate" where
  "entered c st r =
     logger_info (request_line r)
       (if mount_match ''/api/'' (req_path r) then fst (rateLimit limiter (now c) st r) else st)"

definition called_first :: "request \<Rightarrow> layer list" where
  "called_first r =
     [(UseAll, ThirdParty Helmet), (UseAll, ThirdParty Cors)] @
     (if mount_match ''/api/'' (req_path r) then [(UseAt ''/api/'', Limiter)] else []) @
     [(UseAll, ThirdParty JsonParser), (UseAll, ThirdParty UrlencodedParser),
      (UseAll, RequestLogger)]"

text \<open>A request for the health endpoint itself: GET (or HEAD) on the mount point.\<close>

definition health_endpoint :: "request \<Rightarrow> bool" where
  "health_endpoint r =
     ((req_method r = GET \<or> req_method r = HEAD) \<and> mount_match ''/health'' (req_path r) \<and>
      route_match ''/'' (mount_rest ''/health'' (req_path r)))"

text \<open>
  The routes the application configures: the documentation, the health routes, the seven
  proxied prefixes and the root endpoint. A request is unrouted when it matches none.
\<close>

definition configured_routes :: "layer list" where
  "configured_routes = take 10 routes"

definition unrouted :: "request \<Rightarrow> bool" where
  "unrouted r = list_all (\<lambda>l. \<not> matches (fst l) r) configured_routes"



text \<open>
  What holds of a request that a layer before the routes answers or fails: no upstream is
  called, only the first six layers and the error handler are called, and the reply is a
  third-party layer's own, the limiter's rejection, or the error handler's.
\<close>

definition early :: "ctx \<Rightarrow> gstate \<Rightarrow> request \<Rightarrow> outcome \<Rightarrow> bool" where
  "early c st r out =
    (outbound (final out) = outbound st \<and>
     set (trace out) \<subseteq> set (take 6 app) \<union> {(UseAll, ErrorMiddleware)} \<and>
     ((\<exists>t. lib c t r = Ends (reply out)) \<or>
      reply out = Send 429 (message limiter) \<or>
      (\<exists>t e s. lib c t r = Throws e \<and> reply out = snd (errorMiddleware c e s))))"

text \<open>The replies the gateway can give, by origin.\<close>

definition catalogued :: "ctx \<Rightarrow> request \<Rightarrow> reply \<Rightarrow> bool" where
  "catalogued c r rep =
    ((\<exists>t. lib c t r = Ends rep) \<or>
     (\<exists>res. rep = Relay res) \<or>
     (\<exists>s. rep = snd (health_root c s)) \<or>
     rep = health_ready c \<or>
     rep = health_live c \<or>
     rep = Send 200 ''GET,HEAD'' \<or>
     rep = rootEndpoint c \<or>
     rep = notFound r \<or>
     rep = Send 429 (message limiter) \<or>
     (\<exists>u. rep = Json 503 (JObj [(''error'', JStr
        (case u of UserService \<Rightarrow> ''User service unavailable''
         | ProductService \<Rightarrow> ''Product service unavailable''
         | OrderService \<Rightarrow> ''Order service unavailable''))])) \<or>
     (\<exists>t e. lib c t r = Throws e \<and> rep = Json 500 (JObj
        [(''error'', JStr ''Internal Server Error''),
         (''message'', JStr (if env c ''NODE_ENV'' = Some ''development'' then e
                             else ''Something went wrong''))])))"

subsection \<open>Concrete surroundings and requests\<close>

text \<open>
  Values at which the properties below are instantiated: upstream responses, surroundings
  in which every third-party layer passes the request on, variations of them, gateway
  states and requests.
\<close>

definition ok_response :: upstream_response where
  "ok_response = \<lparr>statusCode = 200, resHeaders = [(''content-type'', ''application/json'')],
     resBody = ''{\"id\":7}''\<rparr>"


definition quiet :: ctx where
  "quiet = \<lparr>env = Map.empty, now = 1000, uptime = 5,
     memoryUsage = Inr \<lparr>rss = 50000000, heapTotal = 20000000, heapUsed = 10000000\<rparr>,
     lib = (\<lambda>t r. Next), net = (\<lambda>t r. Replied ok_response)\<rparr>"

definition fresh :: gstate where
  "fresh = \<lparr>buckets = Map.empty, logged = [], outbound = []\<rparr>"

definition request_from :: "string \<Rightarrow> http_method \<Rightarrow> string \<Rightarrow> request" where
  "request_from a m url = \<lparr>req_method = m, originalUrl = url, ip = a, headers = [], body = []\<rparr>"

definition staged :: ctx where
  "staged = quiet\<lparr>env := [''USER_SERVICE_URL'' \<mapsto> ''http://10.0.3.17:3001'']\<rparr>"

definition all_down :: ctx where
  "all_down = quiet\<lparr>net := (\<lambda>t q. Failed ECONNREFUSED)\<rparr>"








definition dev_failing :: ctx where
  "dev_failing = quiet\<lparr>env := [''NODE_ENV'' \<mapsto> ''development''],
     lib := (\<lambda>t q. if t = JsonParser
        then Throws ''Unexpected token } in JSON at position 17'' else Next)\<rparr>"

section \<open>Path matching\<close>

lemma lower_slash: "(lower ch = CHR ''/'') = (ch = CHR ''/'')"
  by (auto simp: lower_def split: option.splits if_splits)

lemma mount_match_prefix:
  "mount_match p s \<Longrightarrow> prefix (map lower (strip_slash p)) (map lower s)"
  unfolding mount_match_def Let_def
  by (metis take_is_prefix take_map)

lemma mount_match_disjoint:
  assumes "mount_match p s"
    and "\<not> prefix (map lower (strip_slash p)) (map lower (strip_slash q))"
    and "\<not> prefix (map lower (strip_slash q)) (map lower (strip_slash p))"
  shows "\<not> mount_match q s"
  using assms mount_match_prefix prefix_same_cases by blast


lemma route_slash: "route_match ''/'' s = (s = [] \<or> s = ''/'')"
  by (auto simp: route_match_def strip_slash_def lower_slash)

lemma mount_match_long:
  assumes "mount_match p s" shows "length (strip_slash p) \<le> length s"
  using mount_match_prefix[OF assms] by (metis length_map prefix_length_le)

lemma routing_table_eq:
  "routing_table =
     [(''/api/users'', UserService), (''/api/auth'', UserService),
      (''/api/products'', ProductService), (''/api/categories'', ProductService),
      (''/api/inventory'', ProductService), (''/api/orders'', OrderService),
      (''/api/cart'', OrderService)]"
  by (simp add: routing_table_def app_def)

lemma routes_eq:
  "routes =
    [(UseAt ''/api-docs'', ThirdParty SwaggerUi),
     (UseAt ''/health'', HealthRoutes),
     (UseAt ''/api/users'', Proxy UserService),
     (UseAt ''/api/auth'', Proxy UserService),
     (UseAt ''/api/products'', Proxy ProductService),
     (UseAt ''/api/categories'', Proxy ProductService),
     (UseAt ''/api/inventory'', Proxy ProductService),
     (UseAt ''/api/orders'', Proxy OrderService),
     (UseAt ''/api/cart'', Proxy OrderService),
     (GetAt ''/'', RootEndpoint),
     (UseStar, NotFound),
     (UseAll, ErrorMiddleware)]"
  by (simp add: routes_def app_def)

lemma handle_routes:
  assumes "reaches_routes c st r"
  shows "handle c st r = run c r routes None (entered c st r) (called_first r)"
proof (cases "mount_match ''/api/'' (req_path r)")
  case True
  then have "snd (rateLimit limiter (now c) st r) = Next"
    using assms by (simp add: reaches_routes_def admits_def)
  then obtain st1 where rl: "rateLimit limiter (now c) st r = (st1, Next)"
    by (metis prod.collapse)
  show ?thesis
    using assms True rl
    by (simp add: handle_def app_def routes_eq reaches_routes_def passes_on_def entered_def
        called_first_def req_path_def request_line_def)
next
  case False
  then show ?thesis
    using assms
    by (simp add: handle_def app_def routes_eq reaches_routes_def passes_on_def entered_def
        called_first_def req_path_def request_line_def)
qed

lemma rewrite_same:
  "\<forall>(p, v) \<in> set rules. p = v \<Longrightarrow> rewritePath rules url = url"
proof (induction rules)
  case Nil
  then show ?case by simp
next
  case (Cons a rules)
  obtain p v where a: "a = (p, v)" by (cases a)
  with Cons.prems have pv: "p = v" by simp
  show ?case
  proof (cases "prefix p url")
    case True
    then obtain zs where "url = p @ zs" by (auto simp: prefix_def)
    then show ?thesis using a pv by simp
  next
    case False
    then show ?thesis using a Cons by simp
  qed
qed

lemma rewrite_proxy_of: "rewritePath (pathRewrite (proxy_of u e)) url = url"
  by (cases u; rule rewrite_same)
    (simp_all add: userServiceProxy_def productServiceProxy_def orderServiceProxy_def)

lemma proxy_call:
  "createProxyMiddleware (proxy_of u (env c)) (onError u) c st r =
     (let st1 = st\<lparr>outbound := outbound st @ [(target (proxy_of u (env c)), originalUrl r)]\<rparr>
      in case net c (target (proxy_of u (env c))) r of
           Failed err \<Rightarrow> (fst (onError u err st1), Ends (snd (onError u err st1)))
         | Replied res \<Rightarrow> (st1, Ends (Relay res)))"
  by (simp add: createProxyMiddleware_def rewrite_proxy_of Let_def split: attempt.splits prod.splits)

lemma onError_reply:
  "snd (onError u err st) = Json 503 (JObj [(''error'', JStr
     (case u of UserService \<Rightarrow> ''User service unavailable''
      | ProductService \<Rightarrow> ''Product service unavailable''
      | OrderService \<Rightarrow> ''Order service unavailable''))])"
  by (cases u) simp_all

lemma onError_state:
  "fst (onError u err st) = logger_error
     (case u of UserService \<Rightarrow> ''User Service Proxy Error:''
      | ProductService \<Rightarrow> ''Product Service Proxy Error:''
      | OrderService \<Rightarrow> ''Order Service Proxy Error:'') (error_code err) st"
  by (cases u) simp_all



lemma table_cases:
  assumes "(P, u) \<in> set routing_table"
  shows "(P = ''/api/users'' \<and> u = UserService) \<or> (P = ''/api/auth'' \<and> u = UserService) \<or>
    (P = ''/api/products'' \<and> u = ProductService) \<or> (P = ''/api/categories'' \<and> u = ProductService) \<or>
    (P = ''/api/inventory'' \<and> u = ProductService) \<or> (P = ''/api/orders'' \<and> u = OrderService) \<or>
    (P = ''/api/cart'' \<and> u = OrderService)"
  using assms unfolding routing_table_eq by simp



lemma norm_simps:
  "map lower (strip_slash ''/api/'') = ''/api''"
  "map lower (strip_slash ''/api-docs'') = ''/api-docs''"
  "map lower (strip_slash ''/health'') = ''/health''"
  "map lower (strip_slash ''/api/users'') = ''/api/users''"
  "map lower (strip_slash ''/api/auth'') = ''/api/auth''"
  "map lower (strip_slash ''/api/products'') = ''/api/products''"
  "map lower (strip_slash ''/api/categories'') = ''/api/categories''"
  "map lower (strip_slash ''/api/inventory'') = ''/api/inventory''"
  "map lower (strip_slash ''/api/orders'') = ''/api/orders''"
  "map lower (strip_slash ''/api/cart'') = ''/api/cart''"
  by (simp_all add: strip_slash_def lower_def)

lemma not_root:
  assumes "mount_match p s" "2 \<le> length (strip_slash p)"
  shows "\<not> route_match ''/'' s"
  using mount_match_long[OF assms(1)] assms(2) by (auto simp: route_slash)

lemma run_proxy:
  assumes "(P, u) \<in> set routing_table" "mount_match P (req_path r)"
  shows "run c r routes None st tr =
     (let st1 = st\<lparr>outbound := outbound st @ [(target (proxy_of u (env c)), originalUrl r)]\<rparr>
      in case net c (target (proxy_of u (env c))) r of
           Failed err \<Rightarrow> \<lparr>reply = snd (onError u err st1), final = fst (onError u err st1),
             trace = tr @ [(UseAt P, Proxy u)]\<rparr>
         | Replied res \<Rightarrow> \<lparr>reply = Relay res, final = st1, trace = tr @ [(UseAt P, Proxy u)]\<rparr>)"
proof -
  note ex = mount_match_disjoint[OF assms(2)]
  show ?thesis
    using table_cases[OF assms(1)]
    by (elim disjE conjE)
      (use assms(2) ex in \<open>simp_all add: routes_eq req_path_def[symmetric] norm_simps proxy_call Let_def
        del: proxy_of.simps split: attempt.splits\<close>)
qed



lemma rateLimit_keeps:
  assumes "rateLimit opts t st r = (st', res)"
  shows "outbound st' = outbound st" "logged st' = logged st"
  using assms by (auto simp: rateLimit_def Let_def split: if_splits)

lemma rateLimit_result:
  assumes "rateLimit opts t st r = (st', res)"
  shows "res = Next \<or> res = Ends (Send 429 (message opts))"
  using assms by (auto simp: rateLimit_def Let_def split: if_splits)

section \<open>Before the routes\<close>

lemma errorMiddleware_keeps:
  "outbound (fst (errorMiddleware c e s)) = outbound s"
  "buckets (fst (errorMiddleware c e s)) = buckets s"
  by (simp_all add: errorMiddleware_def logger_error_def)

lemma early_helmet:
  assumes "lib c Helmet r \<noteq> Next"
  shows "early c st r (handle c st r)"
  using assms
  by (cases "lib c Helmet r")
     (auto simp add: early_def handle_def app_def errorMiddleware_keeps case_prod_beta)

lemma early_cors:
  assumes "lib c Helmet r = Next" "lib c Cors r \<noteq> Next"
  shows "early c st r (handle c st r)"
  using assms
  by (cases "lib c Cors r")
     (auto simp add: early_def handle_def app_def errorMiddleware_keeps case_prod_beta)

lemma early_limiter:
  assumes "lib c Helmet r = Next" "lib c Cors r = Next"
    "mount_match ''/api/'' (req_path r)" "\<not> admits c st r"
  shows "early c st r (handle c st r)"
proof -
  obtain st1 res where rl: "rateLimit limiter (now c) st r = (st1, res)"
    by (cases "rateLimit limiter (now c) st r")
  with assms(4) have "res = Ends (Send 429 (message limiter))"
    using rateLimit_result[OF rl] by (simp add: admits_def)
  with rl assms(1-3) rateLimit_keeps(1)[OF rl] show ?thesis
    by (simp add: early_def handle_def app_def)
qed


lemma early_json:
  assumes "lib c Helmet r = Next" "lib c Cors r = Next"
    "mount_match ''/api/'' (req_path r) \<longrightarrow> admits c st r" "lib c JsonParser r \<noteq> Next"
  shows "early c st r (handle c st r)"
proof (cases "mount_match ''/api/'' (req_path r)")
  case True
  obtain st1 res where rl: "rateLimit limiter (now c) st r = (st1, res)"
    by (cases "rateLimit limiter (now c) st r")
  with assms(3) True have res: "res = Next" by (simp add: admits_def)
  show ?thesis
    using assms(1,2,4) True rl res rateLimit_keeps(1)[OF rl]
    by (cases "lib c JsonParser r")
      (auto simp add: early_def handle_def app_def errorMiddleware_keeps case_prod_beta)
next
  case False
  show ?thesis
    using assms(1,2,4) False
    by (cases "lib c JsonParser r")
      (auto simp add: early_def handle_def app_def errorMiddleware_keeps case_prod_beta)
qed

lemma early_urlencoded:
  assumes "lib c Helmet r = Next" "lib c Cors r = Next"
    "mount_match ''/api/'' (req_path r) \<longrightarrow> admits c st r" "lib c JsonParser r = Next"
    "lib c UrlencodedParser r \<noteq> Next"
  shows "early c st r (handle c st r)"
proof (cases "mount_match ''/api/'' (req_path r)")
  case True
  obtain st1 res where rl: "rateLimit limiter (now c) st r = (st1, res)"
    by (cases "rateLimit limiter (now c) st r")
  with assms(3) True have res: "res = Next" by (simp add: admits_def)
  show ?thesis
    using assms(1,2,4,5) True rl res rateLimit_keeps(1)[OF rl]
    by (cases "lib c UrlencodedParser r")
      (auto simp add: early_def handle_def app_def errorMiddleware_keeps case_prod_beta)
next
  case False
  show ?thesis
    using assms(1,2,4,5) False
    by (cases "lib c UrlencodedParser r")
      (auto simp add: early_def handle_def app_def errorMiddleware_keeps case_prod_beta)
qed

lemma early_exit:
  assumes "\<not> reaches_routes c st r"
  shows "early c st r (handle c st r)"
  using assms early_helmet early_cors early_limiter early_json early_urlencoded
  unfolding reaches_routes_def passes_on_def by blast

text \<open>Generic facts about the walk over the stack.\<close>

lemma run_trace:
  "l \<in> set (trace (run c r ls err st tr)) \<Longrightarrow>
     l \<in> set tr \<or> (l \<in> set ls \<and> matches (fst l) r)"
proof (induction ls arbitrary: err st tr)
  case Nil
  then show ?case by simp
next
  case (Cons a ls)
  show ?case
  proof (cases err)
    case None
    show ?thesis
    proof (cases "snd a = ErrorMiddleware \<or> \<not> matches (fst a) r")
      case True
      with Cons.prems None have "l \<in> set (trace (run c r ls None st tr))" by auto
      from Cons.IH[OF this] show ?thesis by auto
    next
      case False
      obtain st' res where inv: "invoke c a st r = (st', res)" by (cases "invoke c a st r")
      show ?thesis
      proof (cases res)
        case Next
        with Cons.prems None False inv
        have "l \<in> set (trace (run c r ls None st' (tr @ [a])))" by simp
        from Cons.IH[OF this] False show ?thesis by auto
      next
        case (Ends rep)
        with Cons.prems None False inv show ?thesis by auto
      next
        case (Throws e)
        with Cons.prems None False inv
        have "l \<in> set (trace (run c r ls (Some e) st' (tr @ [a])))" by simp
        from Cons.IH[OF this] False show ?thesis by auto
      qed
    qed
  next
    case (Some e)
    show ?thesis
    proof (cases "snd a = ErrorMiddleware \<and> matches (fst a) r")
      case True
      with Cons.prems Some show ?thesis by (auto simp: case_prod_beta)
    next
      case False
      with Cons.prems Some have "l \<in> set (trace (run c r ls (Some e) st tr))" by auto
      from Cons.IH[OF this] show ?thesis by auto
    qed
  qed
qed




section \<open>Among the routes\<close>

lemma run_unrouted:
  assumes "unrouted r"
  shows "run c r routes None st tr =
    \<lparr>reply = notFound r, final = st, trace = tr @ [(UseStar, NotFound)]\<rparr>"
  using assms
  by (simp add: unrouted_def configured_routes_def routes_eq del: matches.simps(3))

lemma root_only:
  assumes "matches (GetAt ''/'') r"
  shows "\<not> mount_match ''/api/'' (req_path r)" "\<not> mount_match ''/api-docs'' (req_path r)"
    "\<not> mount_match ''/health'' (req_path r)" "\<not> mount_match ''/api/users'' (req_path r)"
    "\<not> mount_match ''/api/auth'' (req_path r)" "\<not> mount_match ''/api/products'' (req_path r)"
    "\<not> mount_match ''/api/categories'' (req_path r)" "\<not> mount_match ''/api/inventory'' (req_path r)"
    "\<not> mount_match ''/api/orders'' (req_path r)" "\<not> mount_match ''/api/cart'' (req_path r)"
proof -
  from assms have "route_match ''/'' (req_path r)" by simp
  then have "\<And>p. 2 \<le> length (strip_slash p) \<Longrightarrow> \<not> mount_match p (req_path r)"
    using not_root by blast
  then show "\<not> mount_match ''/api/'' (req_path r)" "\<not> mount_match ''/api-docs'' (req_path r)"
    "\<not> mount_match ''/health'' (req_path r)" "\<not> mount_match ''/api/users'' (req_path r)"
    "\<not> mount_match ''/api/auth'' (req_path r)" "\<not> mount_match ''/api/products'' (req_path r)"
    "\<not> mount_match ''/api/categories'' (req_path r)" "\<not> mount_match ''/api/inventory'' (req_path r)"
    "\<not> mount_match ''/api/orders'' (req_path r)" "\<not> mount_match ''/api/cart'' (req_path r)"
    by (simp_all add: strip_slash_def)
qed

lemma run_root:
  assumes "matches (GetAt ''/'') r"
  shows "run c r routes None st tr =
    \<lparr>reply = rootEndpoint c, final = st, trace = tr @ [(GetAt ''/'', RootEndpoint)]\<rparr>"
  using assms root_only[OF assms]
  by (simp add: routes_eq del: matches.simps(3))

lemma health_only:
  assumes "mount_match ''/health'' (req_path r)"
  shows "\<not> mount_match ''/api/'' (req_path r)" "\<not> mount_match ''/api-docs'' (req_path r)"
    "\<not> mount_match ''/api/users'' (req_path r)"
    "\<not> mount_match ''/api/auth'' (req_path r)" "\<not> mount_match ''/api/products'' (req_path r)"
    "\<not> mount_match ''/api/categories'' (req_path r)" "\<not> mount_match ''/api/inventory'' (req_path r)"
    "\<not> mount_match ''/api/orders'' (req_path r)" "\<not> mount_match ''/api/cart'' (req_path r)"
    "\<not> route_match ''/'' (req_path r)"
  by ((rule mount_match_disjoint[OF assms]; simp add: norm_simps) |
      (rule not_root[OF assms], simp add: strip_slash_def))+

lemma healthRoutes_result:
  assumes "healthRoutes c st m url = (st', res)"
  shows "res = Next \<and> st' = st \<or>
    (\<exists>rep. res = Ends rep \<and> (st', rep) = health_root c st) \<or>
    (st' = st \<and> (res = Ends (health_ready c) \<or> res = Ends (health_live c) \<or>
       res = Ends (Send 200 ''GET,HEAD'')))"
  using assms by (auto simp: healthRoutes_def case_prod_beta split: if_splits)

lemma run_health:
  assumes "mount_match ''/health'' (req_path r)"
  shows "run c r routes None st tr =
    (case healthRoutes c st (req_method r) (mount_rest ''/health'' (req_path r)) of
       (st', Next) \<Rightarrow> \<lparr>reply = notFound r, final = st',
          trace = tr @ [(UseAt ''/health'', HealthRoutes), (UseStar, NotFound)]\<rparr>
     | (st', Ends rep) \<Rightarrow> \<lparr>reply = rep, final = st', trace = tr @ [(UseAt ''/health'', HealthRoutes)]\<rparr>
     | (st', Throws e) \<Rightarrow> \<lparr>reply = snd (errorMiddleware c e st'),
          final = fst (errorMiddleware c e st'),
          trace = tr @ [(UseAt ''/health'', HealthRoutes), (UseAll, ErrorMiddleware)]\<rparr>)"
  using assms health_only[OF assms]
  by (simp add: routes_eq case_prod_beta split: mw_result.splits prod.splits)

lemma mount_match_boundary:
  assumes "mount_match q s"
    and "map lower (strip_slash q) = map lower (strip_slash p) @ ch # t"
    and "ch \<noteq> CHR ''/''"
  shows "\<not> mount_match p s"
proof
  assume p: "mount_match p s"
  let ?n = "length (strip_slash p)"
  have "length (map lower (strip_slash q)) = ?n + Suc (length t)"
    using assms(2) by (metis length_Cons length_append length_map)
  then have lq: "length (strip_slash q) = ?n + Suc (length t)" by simp
  with mount_match_long[OF assms(1)] have lt: "?n < length s" by simp
  have "map lower (take (length (strip_slash q)) s) ! ?n = map lower (strip_slash q) ! ?n"
    using assms(1) by (simp add: mount_match_def Let_def)
  then have "lower (s ! ?n) = ch"
    using assms(2) lq lt mount_match_long[OF assms(1)] by (simp add: nth_append)
  moreover have "s ! ?n = CHR ''/''"
    using p lt by (simp add: mount_match_def Let_def hd_drop_conv_nth)
  ultimately show False
    using assms(3) lower_slash[of "CHR ''/''"] by simp
qed

lemma docs_not_api:
  assumes "mount_match ''/api-docs'' s"
  shows "\<not> mount_match ''/api/'' s"
  by (rule mount_match_boundary[OF assms, of _ "CHR ''-''" "''docs''"]) (simp_all add: norm_simps)

lemma docs_only:
  assumes "mount_match ''/api-docs'' (req_path r)"
  shows "\<not> mount_match ''/health'' (req_path r)"
    "\<not> mount_match ''/api/users'' (req_path r)"
    "\<not> mount_match ''/api/auth'' (req_path r)" "\<not> mount_match ''/api/products'' (req_path r)"
    "\<not> mount_match ''/api/categories'' (req_path r)" "\<not> mount_match ''/api/inventory'' (req_path r)"
    "\<not> mount_match ''/api/orders'' (req_path r)" "\<not> mount_match ''/api/cart'' (req_path r)"
    "\<not> route_match ''/'' (req_path r)"
  by ((rule mount_match_disjoint[OF assms]; simp add: norm_simps) |
      (rule not_root[OF assms], simp add: strip_slash_def))+

lemma run_docs:
  assumes "mount_match ''/api-docs'' (req_path r)"
  shows "run c r routes None st tr =
    (case lib c SwaggerUi r of
       Next \<Rightarrow> \<lparr>reply = notFound r, final = st,
          trace = tr @ [(UseAt ''/api-docs'', ThirdParty SwaggerUi), (UseStar, NotFound)]\<rparr>
     | Ends rep \<Rightarrow> \<lparr>reply = rep, final = st, trace = tr @ [(UseAt ''/api-docs'', ThirdParty SwaggerUi)]\<rparr>
     | Throws e \<Rightarrow> \<lparr>reply = snd (errorMiddleware c e st), final = fst (errorMiddleware c e st),
          trace = tr @ [(UseAt ''/api-docs'', ThirdParty SwaggerUi), (UseAll, ErrorMiddleware)]\<rparr>)"
  using assms docs_only[OF assms]
  by (simp add: routes_eq case_prod_beta split: mw_result.splits)

lemma route_cases:
  "mount_match ''/api-docs'' (req_path r) \<or> mount_match ''/health'' (req_path r) \<or>
   (\<exists>(P, u) \<in> set routing_table. mount_match P (req_path r)) \<or>
   matches (GetAt ''/'') r \<or> unrouted r"
  by (auto simp add: unrouted_def configured_routes_def routes_eq routing_table_eq
      simp del: matches.simps(3))

lemma entered_keeps:
  "outbound (entered c st r) = outbound st"
  "logged (entered c st r) = logged st @ [LogInfo (request_line r)]"
  by (cases "rateLimit limiter (now c) st r";
      simp add: entered_def logger_info_def rateLimit_keeps)+


lemma root_reply:
  assumes "matches (GetAt ''/'') r" "passes_on c r"
  shows "handle c st r = \<lparr>reply = rootEndpoint c, final = entered c st r,
     trace = called_first r @ [(GetAt ''/'', RootEndpoint)]\<rparr>"
proof -
  have "reaches_routes c st r"
    using assms root_only(1)[OF assms(1)] by (simp add: reaches_routes_def)
  then show ?thesis by (simp add: handle_routes run_root[OF assms(1)])
qed

text \<open>
  C10. For every GET request to the root path that the third-party layers pass on, whoever
  sends it and whatever it carries, the reply is 200 with a JSON object whose
  \<^verbatim>\<open>services\<close> property lists the base URLs of the user, product and order services: the
  environment variable when set and non-empty, the built-in default otherwise, which are
  the very targets the proxies forward to.
\<close>

theorem root_discloses_upstream_urls:
  assumes "req_method r = GET" and "req_path r = ''/''" and "passes_on c r"
  shows "\<exists>fields. reply (handle c st r) = Json 200 (JObj fields) \<and>
     map_of fields ''services'' = Some (JObj
       [(''user_service'', JStr (env_or (env c) ''USER_SERVICE_URL'' ''http://user-service:3001'')),
        (''product_service'',
           JStr (env_or (env c) ''PRODUCT_SERVICE_URL'' ''http://product-service:3002'')),
        (''order_service'', JStr (env_or (env c) ''ORDER_SERVICE_URL'' ''http://order-service:3003''))]) \<and>
     env_or (env c) ''USER_SERVICE_URL'' ''http://user-service:3001'' =
       target (proxy_of UserService (env c)) \<and>
     env_or (env c) ''PRODUCT_SERVICE_URL'' ''http://product-service:3002'' =
       target (proxy_of ProductService (env c)) \<and>
     env_or (env c) ''ORDER_SERVICE_URL'' ''http://order-service:3003'' =
       target (proxy_of OrderService (env c))"
proof -
  have "matches (GetAt ''/'') r"
    using assms(1,2) by (simp add: route_slash)
  from root_reply[OF this assms(3)] show ?thesis
    by (simp add: rootEndpoint_def userServiceProxy_def productServiceProxy_def
        orderServiceProxy_def)
qed

theorem root_discloses_upstream_urls_witness:
  "req_method (request_from ''203.0.113.5'' GET ''/'') = GET \<and>
   req_path (request_from ''203.0.113.5'' GET ''/'') = ''/'' \<and>
   passes_on staged (request_from ''203.0.113.5'' GET ''/'') \<and>
   (\<exists>fields. reply (handle staged fresh (request_from ''203.0.113.5'' GET ''/'')) =
        Json 200 (JObj fields) \<and>
      map_of fields ''services'' = Some (JObj
       [(''user_service'', JStr ''http://10.0.3.17:3001''),
        (''product_service'', JStr ''http://product-service:3002''),
        (''order_service'', JStr ''http://order-service:3003'')]))"
proof -
  let ?r = "request_from ''203.0.113.5'' GET ''/''"
  have h1: "req_method ?r = GET" by (simp add: request_from_def)
  have h2: "req_path ?r = ''/''" by (simp add: request_from_def req_path_def pathname_def)
  have h3: "passes_on staged ?r" by (simp add: staged_def passes_on_def quiet_def)
  have e: "env staged = [''USER_SERVICE_URL'' \<mapsto> ''http://10.0.3.17:3001'']"
    by (simp add: staged_def)
  from root_discloses_upstream_urls[OF h1 h2 h3, of fresh]
  obtain fields where "reply (handle staged fresh ?r) = Json 200 (JObj fields)"
    and "map_of fields ''services'' = Some (JObj
       [(''user_service'', JStr ''http://10.0.3.17:3001''),
        (''product_service'', JStr ''http://product-service:3002''),
        (''order_service'', JStr ''http://order-service:3003'')])"
    unfolding e by (elim exE conjE) (simp add: env_or_def)
  with h1 h2 h3 show ?thesis by (intro conjI exI[of _ fields])
qed

lemma health_root_state_free: "snd (health_root c s) = snd (health_root c s')"
  by (simp add: health_root_def split: sum.splits)

lemma health_root_keeps: "outbound (fst (health_root c s)) = outbound s"
  "buckets (fst (health_root c s)) = buckets s"
  by (simp_all add: health_root_def logger_error_def split: sum.splits)

lemma health_outcome:
  assumes "health_endpoint r" "passes_on c r"
  shows "handle c st r = \<lparr>reply = snd (health_root c st),
     final = fst (health_root c (entered c st r)),
     trace = called_first r @ [(UseAt ''/health'', HealthRoutes)]\<rparr>"
proof -
  from assms(1) have m: "mount_match ''/health'' (req_path r)"
    and rt: "route_match ''/'' (mount_rest ''/health'' (req_path r))"
    and g: "req_method r = GET \<or> req_method r = HEAD"
    by (simp_all add: health_endpoint_def)
  have "reaches_routes c st r"
    using assms(2) health_only(1)[OF m] by (simp add: reaches_routes_def)
  then have "handle c st r = run c r routes None (entered c st r) (called_first r)"
    by (rule handle_routes)
  also have "\<dots> = \<lparr>reply = snd (health_root c (entered c st r)),
     final = fst (health_root c (entered c st r)),
     trace = called_first r @ [(UseAt ''/health'', HealthRoutes)]\<rparr>"
    using rt g by (auto simp add: run_health[OF m] healthRoutes_def case_prod_beta)
  finally show ?thesis
    using health_root_state_free[of c "entered c st r" st] by simp
qed

text \<open>
  C1 (as the code has it). A GET for the health endpoint that the third-party layers pass
  on is answered from the gateway process alone: the reply is the self-report of
  \<^verbatim>\<open>health_root\<close>, the same whatever the network does, and no upstream is called. When
  \<^verbatim>\<open>process.memoryUsage()\<close> returns, it is 200 with exactly the properties status, service,
  timestamp, uptime, version, environment and memory, and status is \<^verbatim>\<open>healthy\<close>; when it
  throws, it is 503 with status \<^verbatim>\<open>unhealthy\<close> and the message. There is no report on any
  upstream in it.
\<close>

theorem health_reports_gateway_only:
  assumes "health_endpoint r" and "passes_on c r"
  shows "reply (handle c st r) = snd (health_root c st) \<and>
     reply (handle (c\<lparr>net := n\<rparr>) st r) = reply (handle c st r) \<and>
     outbound (final (handle c st r)) = outbound st \<and>
     (\<forall>m. memoryUsage c = Inr m \<longrightarrow>
        (\<exists>fields. reply (handle c st r) = Json 200 (JObj fields) \<and>
           map fst fields = [''status'', ''service'', ''timestamp'', ''uptime'', ''version'',
             ''environment'', ''memory''] \<and>
           map_of fields ''status'' = Some (JStr ''healthy''))) \<and>
     (\<forall>msg. memoryUsage c = Inl msg \<longrightarrow>
        reply (handle c st r) = Json 503 (JObj
          [(''status'', JStr ''unhealthy''), (''service'', JStr ''api-gateway''),
           (''timestamp'', JIso (now c)), (''error'', JStr msg)]))"
proof -
  have p: "passes_on (c\<lparr>net := n\<rparr>) r" using assms(2) by (simp add: passes_on_def)
  have a: "reply (handle c st r) = snd (health_root c st)"
    by (simp add: health_outcome[OF assms])
  have b: "reply (handle (c\<lparr>net := n\<rparr>) st r) = snd (health_root c st)"
    by (simp add: health_outcome[OF assms(1) p] health_root_def split: sum.splits)
  have d: "outbound (final (handle c st r)) = outbound st"
    by (simp add: health_outcome[OF assms] health_root_keeps entered_keeps)
  show ?thesis
    unfolding b a using d by (simp add: health_root_def split: sum.splits)
qed

theorem health_reports_gateway_only_witness:
  "health_endpoint (request_from ''10.0.0.9'' GET ''/health'') \<and>
   passes_on quiet (request_from ''10.0.0.9'' GET ''/health'') \<and>
   reply (handle (quiet\<lparr>net := (\<lambda>t q. Failed ETIMEDOUT)\<rparr>) fresh
       (request_from ''10.0.0.9'' GET ''/health'')) =
     reply (handle quiet fresh (request_from ''10.0.0.9'' GET ''/health'')) \<and>
   outbound (final (handle quiet fresh (request_from ''10.0.0.9'' GET ''/health''))) = [] \<and>
   (\<exists>fields. reply (handle quiet fresh (request_from ''10.0.0.9'' GET ''/health'')) =
        Json 200 (JObj fields) \<and>
      map fst fields = [''status'', ''service'', ''timestamp'', ''uptime'', ''version'',
        ''environment'', ''memory''] \<and>
      map_of fields ''status'' = Some (JStr ''healthy''))"
proof -
  let ?r = "request_from ''10.0.0.9'' GET ''/health''"
  have h1: "health_endpoint ?r"
    by (simp add: health_endpoint_def request_from_def req_path_def pathname_def mount_match_def
        mount_rest_def route_match_def strip_slash_def lower_def)
  have h2: "passes_on quiet ?r" by (simp add: passes_on_def quiet_def)
  have m: "memoryUsage quiet = Inr \<lparr>rss = 50000000, heapTotal = 20000000, heapUsed = 10000000\<rparr>"
    by (simp add: quiet_def)
  have o: "outbound fresh = []" by (simp add: fresh_def)
  note t = health_reports_gateway_only[OF h1 h2, of fresh "\<lambda>t q. Failed ETIMEDOUT"]
  from t m obtain fields where "reply (handle quiet fresh ?r) = Json 200 (JObj fields)"
    and "map fst fields = [''status'', ''service'', ''timestamp'', ''uptime'', ''version'',
        ''environment'', ''memory'']"
    and "map_of fields ''status'' = Some (JStr ''healthy'')"
    by (elim conjE allE[of _ "\<lparr>rss = 50000000, heapTotal = 20000000, heapUsed = 10000000\<rparr>"])
       auto
  with h1 h2 t o show ?thesis by (intro conjI exI[of _ fields]) simp_all
qed

text \<open>
  C1 as stated fails: with all three upstreams refusing connections, the health endpoint
  still answers 200 with status \<^verbatim>\<open>healthy\<close>, and the body has no entry for any upstream.
\<close>

theorem health_ignores_upstreams:
  "net all_down (target (proxy_of UserService (env all_down)))
      (request_from ''10.0.0.9'' GET ''/health'') = Failed ECONNREFUSED \<and>
   net all_down (target (proxy_of ProductService (env all_down)))
      (request_from ''10.0.0.9'' GET ''/health'') = Failed ECONNREFUSED \<and>
   net all_down (target (proxy_of OrderService (env all_down)))
      (request_from ''10.0.0.9'' GET ''/health'') = Failed ECONNREFUSED \<and>
   reply (handle all_down fresh (request_from ''10.0.0.9'' GET ''/health'')) =
     Json 200 (JObj
       [(''status'', JStr ''healthy''),
        (''service'', JStr ''api-gateway''),
        (''timestamp'', JIso 1000),
        (''uptime'', JNum 5),
        (''version'', JStr ''1.0.0''),
        (''environment'', JStr ''development''),
        (''memory'', JObj [(''rss'', JNum 48), (''heapTotal'', JNum 19), (''heapUsed'', JNum 10)])])"
proof -
  let ?r = "request_from ''10.0.0.9'' GET ''/health''"
  have h1: "health_endpoint ?r"
    by (simp add: health_endpoint_def request_from_def req_path_def pathname_def mount_match_def
        mount_rest_def route_match_def strip_slash_def lower_def)
  have h2: "passes_on all_down ?r" by (simp add: passes_on_def all_down_def quiet_def)
  have "reply (handle all_down fresh ?r) = snd (health_root all_down fresh)"
    by (simp add: health_outcome[OF h1 h2])
  then show ?thesis
    by (simp add: health_root_def all_down_def quiet_def env_or_def round_mb_def)
qed



lemma proxy_outcome:
  assumes "(P, u) \<in> set routing_table" "mount_match P (req_path r)" "reaches_routes c st r"
  shows "handle c st r =
     (let st1 = (entered c st r)\<lparr>outbound := outbound st @ [(target (proxy_of u (env c)), originalUrl r)]\<rparr>
      in case net c (target (proxy_of u (env c))) r of
           Failed err \<Rightarrow> \<lparr>reply = snd (onError u err st1), final = fst (onError u err st1),
             trace = called_first r @ [(UseAt P, Proxy u)]\<rparr>
         | Replied res \<Rightarrow> \<lparr>reply = Relay res, final = st1,
             trace = called_first r @ [(UseAt P, Proxy u)]\<rparr>)"
  by (simp add: handle_routes[OF assms(3)] run_proxy[OF assms(1,2)] entered_keeps)






lemma table_disjoint:
  assumes "(P1, u1) \<in> set routing_table" "(P2, u2) \<in> set routing_table" "P1 \<noteq> P2"
    "mount_match P1 s"
  shows "\<not> mount_match P2 s"
proof -
  note ex = mount_match_disjoint[OF assms(4)]
  show ?thesis
    using table_cases[OF assms(1)] table_cases[OF assms(2)] assms(3)
    by (elim disjE conjE) (use ex in \<open>simp_all add: norm_simps\<close>)
qed

lemma table_functional:
  assumes "(P, u) \<in> set routing_table" "(P, u') \<in> set routing_table"
  shows "u' = u"
  using table_cases[OF assms(1)] table_cases[OF assms(2)]
  by (elim disjE conjE) simp_all

lemma table_in_app:
  "((UseAt P, Proxy u) \<in> set app) = ((P, u) \<in> set routing_table)"
  by (auto simp add: routing_table_eq app_def)

lemma proxy_in_trace:
  assumes "(UseAt P, Proxy u) \<in> set (trace (handle c st r))"
  shows "(P, u) \<in> set routing_table \<and> mount_match P (req_path r)"
  using run_trace[OF assms[unfolded handle_def]] by (simp add: table_in_app)

lemma handle_under:
  assumes "(P, u) \<in> set routing_table" "mount_match P (req_path r)"
  shows "outbound (final (handle c st r)) = outbound st \<or>
         outbound (final (handle c st r)) = outbound st @ [(target (proxy_of u (env c)), originalUrl r)]"
proof (cases "reaches_routes c st r")
  case True
  show ?thesis
    by (cases "net c (target (proxy_of u (env c))) r")
      (simp_all add: proxy_outcome[OF assms True] Let_def case_prod_beta onError_state logger_error_def)
next
  case False
  from early_exit[OF this] show ?thesis by (simp add: early_def)
qed

lemma calm_reaches:
  "lib c = (\<lambda>t q. Next) \<Longrightarrow> reaches_routes c fresh r"
  by (simp add: reaches_routes_def passes_on_def admits_def rateLimit_def current_bucket_def
      limiter_def fresh_def Let_def)

text \<open>
  C2. Let P1 and P2 be two different prefixes of the route table and let the path of a
  request fall under P1. Then the path does not fall under P2 (the configured prefixes
  never overlap). Whatever the other layers do, the only proxy that can be called for the
  request is the one mounted at P1, for P1's service, so the request is never handed over
  through P2's rule; and the only outbound call it can cause goes to the target of P1's
  service, with the URL unchanged. If the request reaches the routes, that proxy is called
  and exactly that one call is made. (P2's service receives the request only when it is
  P1's own service, as for \<^verbatim>\<open>/api/users\<close> and \<^verbatim>\<open>/api/auth\<close>.)
\<close>

theorem routed_to_own_upstream:
  assumes "(P1, u1) \<in> set routing_table" and "(P2, u2) \<in> set routing_table" and "P1 \<noteq> P2"
    and "mount_match P1 (req_path r)"
  shows "\<not> mount_match P2 (req_path r) \<and>
     (UseAt P2, Proxy u2) \<notin> set (trace (handle c st r)) \<and>
     (\<forall>P u. (UseAt P, Proxy u) \<in> set (trace (handle c st r)) \<longrightarrow> P = P1 \<and> u = u1) \<and>
     (outbound (final (handle c st r)) = outbound st \<or>
      outbound (final (handle c st r)) =
        outbound st @ [(target (proxy_of u1 (env c)), originalUrl r)]) \<and>
     (reaches_routes c st r \<longrightarrow>
        last (trace (handle c st r)) = (UseAt P1, Proxy u1) \<and>
        outbound (final (handle c st r)) =
          outbound st @ [(target (proxy_of u1 (env c)), originalUrl r)])"
proof -
  have a: "\<not> mount_match P2 (req_path r)"
    using table_disjoint[OF assms] .
  have b: "P = P1 \<and> u = u1" if "(UseAt P, Proxy u) \<in> set (trace (handle c st r))" for P u
  proof -
    from proxy_in_trace[OF that] have t: "(P, u) \<in> set routing_table"
      and m: "mount_match P (req_path r)" by simp_all
    have "P = P1" using table_disjoint[OF assms(1) t _ assms(4)] m by blast
    with t table_functional[OF assms(1)] show ?thesis by simp
  qed
  have d: "last (trace (handle c st r)) = (UseAt P1, Proxy u1) \<and>
      outbound (final (handle c st r)) =
        outbound st @ [(target (proxy_of u1 (env c)), originalUrl r)]"
    if "reaches_routes c st r"
    by (cases "net c (target (proxy_of u1 (env c))) r")
      (simp_all add: proxy_outcome[OF assms(1,4) that] Let_def onError_state logger_error_def)
  from a b d handle_under[OF assms(1,4)] assms(3) show ?thesis by blast
qed

theorem routed_to_own_upstream_witness:
  "(''/api/products'', ProductService) \<in> set routing_table \<and>
   (''/api/orders'', OrderService) \<in> set routing_table \<and>
   ''/api/products'' \<noteq> ''/api/orders'' \<and>
   mount_match ''/api/products'' (req_path (request_from ''10.0.0.9'' GET ''/api/products/7'')) \<and>
   reaches_routes quiet fresh (request_from ''10.0.0.9'' GET ''/api/products/7'') \<and>
   \<not> mount_match ''/api/orders'' (req_path (request_from ''10.0.0.9'' GET ''/api/products/7'')) \<and>
   (UseAt ''/api/orders'', Proxy OrderService) \<notin>
     set (trace (handle quiet fresh (request_from ''10.0.0.9'' GET ''/api/products/7''))) \<and>
   last (trace (handle quiet fresh (request_from ''10.0.0.9'' GET ''/api/products/7''))) =
     (UseAt ''/api/products'', Proxy ProductService) \<and>
   outbound (final (handle quiet fresh (request_from ''10.0.0.9'' GET ''/api/products/7''))) =
     [(''http://product-service:3002'', ''/api/products/7'')]"
proof -
  let ?r = "request_from ''10.0.0.9'' GET ''/api/products/7''"
  have h1: "(''/api/products'', ProductService) \<in> set routing_table"
    and h2: "(''/api/orders'', OrderService) \<in> set routing_table"
    by (simp_all add: routing_table_eq)
  have h3: "''/api/products'' \<noteq> ''/api/orders''" by simp
  have h4: "mount_match ''/api/products'' (req_path ?r)"
    by (simp add: request_from_def req_path_def pathname_def mount_match_def strip_slash_def
        lower_def)
  have h5: "reaches_routes quiet fresh ?r"
    by (rule calm_reaches) (simp add: quiet_def)
  have e: "target (proxy_of ProductService (env quiet)) = ''http://product-service:3002''"
    "originalUrl ?r = ''/api/products/7''" "outbound fresh = []"
    by (simp_all add: productServiceProxy_def env_or_def quiet_def request_from_def fresh_def)
  from routed_to_own_upstream[OF h1 h2 h3 h4, of quiet fresh] h1 h2 h3 h4 h5
  show ?thesis unfolding e by simp
qed



















lemma json_failure:
  assumes "lib c Helmet r = Next" "lib c Cors r = Next"
    "mount_match ''/api/'' (req_path r) \<longrightarrow> admits c st r" "lib c JsonParser r = Throws e"
  shows "reply (handle c st r) = Json 500 (JObj
       [(''error'', JStr ''Internal Server Error''),
        (''message'', JStr (if env c ''NODE_ENV'' = Some ''development'' then e
                            else ''Something went wrong''))])"
proof (cases "mount_match ''/api/'' (req_path r)")
  case True
  obtain st1 res where rl: "rateLimit limiter (now c) st r = (st1, res)"
    by (cases "rateLimit limiter (now c) st r")
  with assms(3) True have res: "res = Next" by (simp add: admits_def)
  show ?thesis
    using assms(1,2,4) True rl res
    by (simp add: handle_def app_def errorMiddleware_def)
next
  case False
  show ?thesis
    using assms(1,2,4) False
    by (simp add: handle_def app_def errorMiddleware_def)
qed

lemma cat_lib: "lib c t r = Ends rep \<Longrightarrow> catalogued c r rep"
  unfolding catalogued_def by (intro disjI1) (rule exI)

lemma cat_error: "lib c t r = Throws e \<Longrightarrow> catalogued c r (snd (errorMiddleware c e s))"
  unfolding catalogued_def errorMiddleware_def snd_conv
  by (intro disjI2) (rule exI conjI refl | assumption)+

lemma cat_fixed:
  "catalogued c r (Relay res)" "catalogued c r (snd (health_root c s))"
  "catalogued c r (health_ready c)" "catalogued c r (health_live c)"
  "catalogued c r (Send 200 ''GET,HEAD'')" "catalogued c r (rootEndpoint c)"
  "catalogued c r (notFound r)" "catalogued c r (Send 429 (message limiter))"
  "catalogued c r (snd (onError u err s))"
proof -
  show "catalogued c r (Relay res)" by (simp add: catalogued_def)
  show "catalogued c r (health_ready c)" "catalogued c r (health_live c)"
    "catalogued c r (Send 200 ''GET,HEAD'')" "catalogued c r (rootEndpoint c)"
    "catalogued c r (notFound r)" "catalogued c r (Send 429 (message limiter))"
    by (simp_all add: catalogued_def)
  have "\<exists>s'. snd (health_root c s) = snd (health_root c s')" by (rule exI) (rule refl)
  then show "catalogued c r (snd (health_root c s))" unfolding catalogued_def by (intro disjI2 disjI1)
  have "\<exists>u'. snd (onError u err s) = Json 503 (JObj [(''error'', JStr
        (case u' of UserService \<Rightarrow> ''User service unavailable''
         | ProductService \<Rightarrow> ''Product service unavailable''
         | OrderService \<Rightarrow> ''Order service unavailable''))])"
    by (rule exI[of _ u]) (rule onError_reply)
  then show "catalogued c r (snd (onError u err s))" unfolding catalogued_def
    by (intro disjI2 disjI1)
qed

lemma reply_catalogue: "catalogued c r (reply (handle c st r))"
proof (cases "reaches_routes c st r")
  case False
  from early_exit[OF this]
  consider t where "lib c t r = Ends (reply (handle c st r))"
    | "reply (handle c st r) = Send 429 (message limiter)"
    | t e s where "lib c t r = Throws e" "reply (handle c st r) = snd (errorMiddleware c e s)"
    unfolding early_def by blast
  then show ?thesis
    by cases (simp_all add: cat_lib cat_error cat_fixed)
next
  case True
  note h = handle_routes[OF True]
  consider (docs) "mount_match ''/api-docs'' (req_path r)"
    | (health) "mount_match ''/health'' (req_path r)"
    | (proxy) P u where "(P, u) \<in> set routing_table" "mount_match P (req_path r)"
    | (root) "matches (GetAt ''/'') r"
    | (none) "unrouted r"
    using route_cases[of r] by blast
  then show ?thesis
  proof cases
    case docs
    show ?thesis
      by (cases "lib c SwaggerUi r")
        (simp_all add: h run_docs[OF docs] cat_lib cat_error cat_fixed)
  next
    case health
    obtain st' res where hr:
      "healthRoutes c (entered c st r) (req_method r) (mount_rest ''/health'' (req_path r)) = (st', res)"
      by (cases "healthRoutes c (entered c st r) (req_method r) (mount_rest ''/health'' (req_path r))")
    from healthRoutes_result[OF hr]
    consider "res = Next" | rep where "res = Ends rep" "rep = snd (health_root c (entered c st r))"
      | "res = Ends (health_ready c)" | "res = Ends (health_live c)"
      | "res = Ends (Send 200 ''GET,HEAD'')"
      by (metis snd_conv)
    then show ?thesis
      by cases (simp_all add: h run_health[OF health] hr cat_fixed)
  next
    case proxy
    show ?thesis
      by (cases "net c (target (proxy_of u (env c))) r")
        (simp_all add: proxy_outcome[OF proxy True] Let_def cat_fixed)
  next
    case root
    show ?thesis by (simp add: h run_root[OF root] cat_fixed)
  next
    case none
    show ?thesis by (simp add: h run_unrouted[OF none] cat_fixed)
  qed
qed

text \<open>
  C6 (as the code has it). Every reply of the gateway is one of the following: a
  third-party layer's own reply; an upstream's response, relayed; the health self-report
  (200, or 503 carrying the message of the exception caught); the fixed ready, live and
  allowed-methods replies; the root document; the 404, which echoes only the request's own
  URL and method; the 429 with the configured text; the 503 of a proxy, a fixed text per
  service whatever the connection error; or the 500 of the error handler, whose message is
  the fixed text \<^verbatim>\<open>Something went wrong\<close> unless \<^verbatim>\<open>NODE_ENV\<close> is \<^verbatim>\<open>development\<close>, in which
  case it is the message of the exception. Apart from that message and the one in the
  health 503, the error bodies are constant texts.
\<close>

theorem error_replies_catalogue:
  "(\<exists>t. lib c t r = Ends (reply (handle c st r))) \<or>
   (\<exists>res. reply (handle c st r) = Relay res) \<or>
   (\<exists>s. reply (handle c st r) = snd (health_root c s)) \<or>
   reply (handle c st r) = health_ready c \<or>
   reply (handle c st r) = health_live c \<or>
   reply (handle c st r) = Send 200 ''GET,HEAD'' \<or>
   reply (handle c st r) = rootEndpoint c \<or>
   reply (handle c st r) = notFound r \<or>
   reply (handle c st r) = Send 429 (message limiter) \<or>
   (\<exists>u. reply (handle c st r) = Json 503 (JObj [(''error'', JStr
      (case u of UserService \<Rightarrow> ''User service unavailable''
       | ProductService \<Rightarrow> ''Product service unavailable''
       | OrderService \<Rightarrow> ''Order service unavailable''))])) \<or>
   (\<exists>t e. lib c t r = Throws e \<and> reply (handle c st r) = Json 500 (JObj
      [(''error'', JStr ''Internal Server Error''),
       (''message'', JStr (if env c ''NODE_ENV'' = Some ''development'' then e
                           else ''Something went wrong''))]))"
  using reply_catalogue[of c r st] unfolding catalogued_def .

text \<open>
  C6 as stated fails: with \<^verbatim>\<open>NODE_ENV=development\<close>, a request whose JSON body does not
  parse is answered 500 with the parser's exception message in the body.
\<close>

theorem development_reply_carries_exception_message:
  "env dev_failing ''NODE_ENV'' = Some ''development'' \<and>
   lib dev_failing JsonParser (request_from ''10.0.0.9'' POST ''/api/orders'') =
     Throws ''Unexpected token } in JSON at position 17'' \<and>
   reply (handle dev_failing fresh (request_from ''10.0.0.9'' POST ''/api/orders'')) =
     Json 500 (JObj
       [(''error'', JStr ''Internal Server Error''),
        (''message'', JStr ''Unexpected token } in JSON at position 17'')])"
proof -
  let ?r = "request_from ''10.0.0.9'' POST ''/api/orders''"
  have e: "env dev_failing ''NODE_ENV'' = Some ''development''"
    by (simp add: dev_failing_def)
  have l: "lib dev_failing Helmet ?r = Next" "lib dev_failing Cors ?r = Next"
    "lib dev_failing JsonParser ?r = Throws ''Unexpected token } in JSON at position 17''"
    by (simp_all add: dev_failing_def)
  have a: "mount_match ''/api/'' (req_path ?r) \<longrightarrow> admits dev_failing fresh ?r"
    by (simp add: admits_def rateLimit_def current_bucket_def limiter_def fresh_def Let_def)
  from json_failure[OF l(1,2) a l(3)] e l(3) show ?thesis by simp
qed












end
